theory Spec2Isabelle
  imports Complex_Main
begin

section \<open>Errors\<close>

text \<open>
  The Python exceptions the modelled code can raise. A raise is an \<open>Inl\<close> result.
\<close>

datatype error = KeyError | ZeroDivisionError | NameError

section \<open>Gram.bin_search (grams.py)\<close>

text \<open>
  The array holds namedtuples that are read through their field \<open>cumulative\<close>. Python
  compares ints, floats and Fractions by value, so the cumulative values and the probe share one
  linearly ordered type here (a float NaN is left out).
\<close>

datatype ('a, 'c) entry = Entry (item: 'a) (cumulative: 'c)

text \<open>
  The \<open>while lo <= hi\<close> loop of \<open>Gram.bin_search\<close>, with \<open>lo\<close> and \<open>hi\<close> Python ints.
  The loop may run forever, so the result is an option: \<open>None\<close> is "does not return",
  \<open>Some None\<close> is Python's \<open>return None\<close> and \<open>Some (Some i)\<close> is \<open>return mid\<close>.
  Inside the loop \<open>0 \<le> lo \<le> mid \<le> hi \<le> len(array) - 1\<close>, so \<open>array[mid]\<close> is in range and
  \<open>array[mid + 1]\<close> is only read when \<open>mid\<close> is not the last index.
\<close>

partial_function (option) bin_search_loop ::
  "('a, 'c::linorder) entry list \<Rightarrow> 'c \<Rightarrow> int \<Rightarrow> int \<Rightarrow> nat option option"
where
  "bin_search_loop array prob lo hi =
    (if lo \<le> hi then
       (let mid = (lo + hi) div 2 in
        if cumulative (array ! nat mid) \<le> prob \<and>
           (mid = int (length array) - 1 \<or> prob < cumulative (array ! nat (mid + 1)))
        then Some (Some (nat mid))
        else if cumulative (array ! nat mid) < prob
          then bin_search_loop array prob (mid + 1) hi
          else bin_search_loop array prob lo mid)
     else Some None)"

definition bin_search :: "('a, 'c::linorder) entry list \<Rightarrow> 'c \<Rightarrow> nat option option" where
  "bin_search array prob = bin_search_loop array prob 0 (int (length array) - 1)"


section \<open>Frequency distributions (grams.py)\<close>

subsection \<open>Parts that are not in the source files\<close>

text \<open>
  A mapping from item to count in insertion order, as Python's dict, Counter and tuple of
  \<open>(word, count)\<close> pairs enumerate it.
\<close>

type_synonym 'w counts = "('w \<times> int) list"

text \<open>
  \<open>d[word] += count\<close> on a defaultdict(int) or Counter: the count of a present word grows in
  place, an absent word is appended.
\<close>

fun bump :: "'w \<Rightarrow> int \<Rightarrow> 'w counts \<Rightarrow> 'w counts" where
  "bump w c [] = [(w, c)]"
| "bump w c ((w', c') # rest) =
    (if w' = w then (w', c' + c) # rest else (w', c') # bump w c rest)"

text \<open>Python's \<open>Counter(word_list)\<close>: occurrences per word, in first-seen order.\<close>

definition counter :: "'w list \<Rightarrow> 'w counts" where
  "counter word_list = fold (\<lambda>w m. bump w 1 m) word_list []"

text \<open>
  Modelled from the spec: \<open>merge_data_containing_ints\<close> (utils.py) is not among the source
  files. The spec (section 4.5) says the read "merges all buffered deltas into the underlying
  mapping (summing per item)".
\<close>

definition merge_data_containing_ints :: "'w counts \<Rightarrow> 'w counts \<Rightarrow> 'w counts" where
  "merge_data_containing_ints word_to_freq deltas = fold (\<lambda>(w, c) m. bump w c m) deltas word_to_freq"

text \<open>
  Modelled from the spec: the cumulative table of \<open>FreqDist\<close> (stats.py) is not among the
  source files. The spec (section 4.3) says: "running_total at index i = sum of counts for items
  at indices 0..=i", in the mapping's enumeration order.
\<close>

fun cumulative_from :: "'c::monoid_add \<Rightarrow> ('w \<times> 'c) list \<Rightarrow> ('w, 'c) entry list" where
  "cumulative_from acc [] = []"
| "cumulative_from acc ((w, c) # rest) = Entry w (acc + c) # cumulative_from (acc + c) rest"

definition cumulative_table :: "('w \<times> 'c::monoid_add) list \<Rightarrow> ('w, 'c) entry list" where
  "cumulative_table word_to_freq = cumulative_from 0 word_to_freq"

text \<open>
  The state of a Listogram or Dictogram: the mapping and the cumulative table that
  \<open>FreqDist.__init__\<close> sets, the buffer \<open>temp_word_to_freq\<close>, and the call log \<open>_logs_\<close> that the
  metaclass keeps.
\<close>

record 'w gram =
  word_to_freq :: "'w counts"
  table :: "('w, int) entry list"
  temp_word_to_freq :: "'w counts"
  logs :: "string list"

text \<open>
  Modelled from the spec: \<open>FreqDist.__init__\<close> (stats.py) is not among the source files. The
  spec (section 3) says a distribution owns the mapping and "a derived cumulative table ... built
  from the mapping in a single fixed enumeration order".
\<close>

definition freqdist_init :: "'w counts \<Rightarrow> 'w gram \<Rightarrow> 'w gram" where
  "freqdist_init data_frequency g =
    g\<lparr>word_to_freq := data_frequency, table := cumulative_table data_frequency\<rparr>"

text \<open>
  Modelled from the spec: the lookup \<open>self.get(word, 0)\<close> of \<open>FreqDist\<close> (stats.py) is not among
  the source files. The spec (section 4.3) says: "returns the stored count, or 0 if absent".
\<close>

definition freqdist_get :: "'w gram \<Rightarrow> 'w \<Rightarrow> int \<Rightarrow> int" where
  "freqdist_get g word dflt =
    (case map_of (word_to_freq g) word of Some c \<Rightarrow> c | None \<Rightarrow> dflt)"


text \<open>
  Modelled from the spec: the metaclass \<open>LogMethodCalls\<close> (utils.py) is not among the source
  files. The spec calls it a "call-history logger" with a "bounded-length log"; the classes are
  declared with \<open>logs_size=4\<close>. Every method call of the object appends the method's name on
  entry and the log keeps its last four entries.
\<close>

definition log_call :: "string \<Rightarrow> 'w gram \<Rightarrow> 'w gram" where
  "log_call name g = g\<lparr>logs := (let l = logs g @ [name] in drop (length l - 4) l)\<rparr>"

subsection \<open>Histogram\<close>



subsection \<open>Listogram and Dictogram\<close>

text \<open>
  \<open>__init__\<close> of both classes: an empty buffer, then \<open>FreqDist.__init__\<close> on the counted
  words, or on \<open>{}\<close> when no word list is given.
\<close>

definition gram_init :: "'w list option \<Rightarrow> 'w gram" where
  "gram_init word_list =
    freqdist_init (case word_list of Some ws \<Rightarrow> counter ws | None \<Rightarrow> [])
      \<lparr>word_to_freq = [], table = [], temp_word_to_freq = [], logs = []\<rparr>"

text \<open>\<open>Listogram.add_count\<close>: \<open>self.temp_word_to_freq.append((word, count))\<close>.\<close>

definition listogram_add_count :: "'w \<Rightarrow> int \<Rightarrow> 'w gram \<Rightarrow> 'w gram" where
  "listogram_add_count word count g =
    (let g1 = log_call ''add_count'' g in
     g1\<lparr>temp_word_to_freq := temp_word_to_freq g1 @ [(word, count)]\<rparr>)"

text \<open>\<open>Dictogram.add_count\<close>: \<open>self.temp_word_to_freq[word] += count\<close> on a defaultdict(int).\<close>

definition dictogram_add_count :: "'w \<Rightarrow> int \<Rightarrow> 'w gram \<Rightarrow> 'w gram" where
  "dictogram_add_count word count g =
    (let g1 = log_call ''add_count'' g in
     g1\<lparr>temp_word_to_freq := bump word count (temp_word_to_freq g1)\<rparr>)"

text \<open>
  \<open>rebuild_with_latent_wordcounts\<close>, the same text in both classes: when the log holds more
  than two entries and the third from the end is \<open>add_count\<close>, the object is initialised again
  from the merge of its mapping and its buffer. The buffer itself is not assigned. The new
  \<open>Sample(self)\<close> that follows is not part of the state modelled here.
\<close>

definition rebuild_with_latent_wordcounts :: "'w gram \<Rightarrow> 'w gram" where
  "rebuild_with_latent_wordcounts g =
    (let g1 = log_call ''rebuild_with_latent_wordcounts'' g in
     if length (logs g1) > 2 \<and> logs g1 ! (length (logs g1) - 3) = ''add_count''
     then freqdist_init (merge_data_containing_ints (word_to_freq g1) (temp_word_to_freq g1)) g1
     else g1)"

text \<open>\<open>frequency\<close> of both classes: rebuild, then \<open>return self.get(word, 0)\<close>.\<close>

definition gram_frequency :: "'w \<Rightarrow> 'w gram \<Rightarrow> int \<times> 'w gram" where
  "gram_frequency word g =
    (let g1 = rebuild_with_latent_wordcounts (log_call ''frequency'' g) in
     (freqdist_get g1 word 0, g1))"

text \<open>\<open>Dictogram.items\<close>: rebuild, then \<open>return self.word_to_freq.items()\<close>.\<close>

definition dictogram_items :: "'w gram \<Rightarrow> 'w counts \<times> 'w gram" where
  "dictogram_items g =
    (let g1 = rebuild_with_latent_wordcounts (log_call ''items'' g) in
     (word_to_freq g1, g1))"

text \<open>
  \<open>Listogram.index_of\<close>: rebuild, then the call \<open>bin_search(self.word_to_freq, target, key=...)\<close>.
  The module binds no global \<open>bin_search\<close>: it imports \<open>binsearch\<close> from utils, and
  \<open>Gram.bin_search\<close> is an attribute of the class, which a method body does not see as a bare
  name. Evaluating the name raises NameError before the call is made.
\<close>

definition listogram_index_of :: "'w \<Rightarrow> 'w gram \<Rightarrow> (error + nat option) \<times> 'w gram" where
  "listogram_index_of target g =
    (let g1 = rebuild_with_latent_wordcounts (log_call ''index_of'' g) in
     (Inl NameError, g1))"

text \<open>A burst of \<open>add_count\<close> calls, one per \<open>(word, count)\<close> pair, in order.\<close>

definition listogram_add_counts :: "'w counts \<Rightarrow> 'w gram \<Rightarrow> 'w gram" where
  "listogram_add_counts ds g = fold (\<lambda>(w, c). listogram_add_count w c) ds g"

definition dictogram_add_counts :: "'w counts \<Rightarrow> 'w gram \<Rightarrow> 'w gram" where
  "dictogram_add_counts ds g = fold (\<lambda>(w, c). dictogram_add_count w c) ds g"

text \<open>The sum of the deltas that a burst holds for one word.\<close>

definition delta_sum :: "'w counts \<Rightarrow> 'w \<Rightarrow> int" where
  "delta_sum ds word = sum_list (map snd (filter (\<lambda>d. fst d = word) ds))"

section \<open>HashTable (hashtable.py)\<close>

subsection \<open>Buckets\<close>

text \<open>
  Modelled from the spec: \<open>LinkedList\<close> (linkedlist.py) is not among the source files. The
  spec (sections 3 and 4.1) describes a bucket as an ordered sequence of entries with
  \<open>find\<close> ("linear scan; returns ... the first entry whose key matches, or none"),
  \<open>upsert\<close> ("if an entry with key exists, replace its value in place; else append a new
  entry. Always succeeds") and \<open>remove\<close> ("removes the first matching entry; fails with
  NotFound if no entry matches"). The source passes the match as a predicate \<open>quality\<close>;
  \<open>replace(quality, new_item)\<close> is the upsert and \<open>replace(quality)\<close> the removal, whose
  failure \<open>HashTable.delete\<close> catches as KeyError.
\<close>

definition ll_find :: "('e \<Rightarrow> bool) \<Rightarrow> 'e list \<Rightarrow> 'e option" where
  "ll_find quality xs = find quality xs"

fun ll_replace :: "('e \<Rightarrow> bool) \<Rightarrow> 'e \<Rightarrow> 'e list \<Rightarrow> 'e list" where
  "ll_replace quality new_item [] = [new_item]"
| "ll_replace quality new_item (x # xs) =
    (if quality x then new_item # xs else x # ll_replace quality new_item xs)"

fun ll_remove :: "('e \<Rightarrow> bool) \<Rightarrow> 'e list \<Rightarrow> error + 'e list" where
  "ll_remove quality [] = Inl KeyError"
| "ll_remove quality (x # xs) =
    (if quality x then Inr xs
     else (case ll_remove quality xs of Inl e \<Rightarrow> Inl e | Inr ys \<Rightarrow> Inr (x # ys)))"

subsection \<open>The table\<close>

text \<open>
  The slots \<open>buckets\<close> and \<open>table_size\<close>; \<open>load_factor\<close> is the constant 0.9 and is never
  read by the operations below. Python's \<open>hash\<close> is a parameter \<open>h\<close>.
\<close>

record ('k, 'v) hashtable =
  buckets :: "('k \<times> 'v) list list"
  table_size :: int

text \<open>\<open>__init__\<close>: \<open>range(init_size)\<close> is empty for \<open>init_size \<le> 0\<close>.\<close>

definition ht_init :: "int \<Rightarrow> ('k, 'v) hashtable" where
  "ht_init init_size = \<lparr>buckets = replicate (nat init_size) [], table_size = 0\<rparr>"

text \<open>
  \<open>_bucket_index\<close>: \<open>hash(key) % len(self.buckets)\<close>. Python's \<open>%\<close> takes the sign of the
  divisor, as \<open>mod\<close> on \<open>int\<close> does, and raises ZeroDivisionError for a zero divisor.
\<close>

definition bucket_index :: "('k \<Rightarrow> int) \<Rightarrow> ('k, 'v) hashtable \<Rightarrow> 'k \<Rightarrow> error + nat" where
  "bucket_index h t key =
    (if length (buckets t) = 0 then Inl ZeroDivisionError
     else Inr (nat (h key mod int (length (buckets t)))))"

definition ht_get :: "('k \<Rightarrow> int) \<Rightarrow> ('k, 'v) hashtable \<Rightarrow> 'k \<Rightarrow> error + 'v" where
  "ht_get h t key =
    (case bucket_index h t key of
       Inl e \<Rightarrow> Inl e
     | Inr bucket_idx \<Rightarrow>
        (case ll_find (\<lambda>item. fst item = key) (buckets t ! bucket_idx) of
           None \<Rightarrow> Inl KeyError
         | Some val \<Rightarrow> Inr (snd val)))"

text \<open>\<open>contains\<close>: the bare \<open>except\<close> turns every exception of \<open>get\<close> into False.\<close>

definition ht_contains :: "('k \<Rightarrow> int) \<Rightarrow> ('k, 'v) hashtable \<Rightarrow> 'k \<Rightarrow> bool" where
  "ht_contains h t key = (case ht_get h t key of Inl e \<Rightarrow> False | Inr v \<Rightarrow> True)"

text \<open>\<open>length\<close>: the sum of the bucket lengths.\<close>

definition ht_length :: "('k, 'v) hashtable \<Rightarrow> int" where
  "ht_length t = int (sum_list (map length (buckets t)))"

text \<open>
  A mutating method returns its outcome and the table it leaves behind, which after an
  exception is the table as mutated so far.
\<close>

definition ht_set :: "('k \<Rightarrow> int) \<Rightarrow> 'k \<Rightarrow> 'v \<Rightarrow> ('k, 'v) hashtable \<Rightarrow> (error + unit) \<times> ('k, 'v) hashtable" where
  "ht_set h key val t =
    (case bucket_index h t key of
       Inl e \<Rightarrow> (Inl e, t)
     | Inr bucket_idx \<Rightarrow>
        (let t1 = t\<lparr>table_size := table_size t - int (length (buckets t ! bucket_idx))\<rparr>;
             t2 = t1\<lparr>buckets := (buckets t1)
                     [bucket_idx := ll_replace (\<lambda>item. fst item = key) (key, val)
                                      (buckets t1 ! bucket_idx)]\<rparr>;
             t3 = t2\<lparr>table_size := table_size t2 + int (length (buckets t2 ! bucket_idx))\<rparr>
         in (Inr (), t3)))"

definition ht_delete :: "('k \<Rightarrow> int) \<Rightarrow> 'k \<Rightarrow> ('k, 'v) hashtable \<Rightarrow> (error + unit) \<times> ('k, 'v) hashtable" where
  "ht_delete h key t =
    (case bucket_index h t key of
       Inl e \<Rightarrow> (Inl e, t)
     | Inr bucket_idx \<Rightarrow>
        (case ll_remove (\<lambda>item. fst item = key) (buckets t ! bucket_idx) of
           Inl e \<Rightarrow> (Inl e, t)
         | Inr b \<Rightarrow>
            (Inr (), t\<lparr>buckets := (buckets t)[bucket_idx := b],
                       table_size := table_size t - 1\<rparr>)))"

subsection \<open>Sequences of operations\<close>

datatype ('k, 'v) op = Set 'k 'v | Delete 'k

text \<open>One call; a caller that catches the exception goes on with the table left behind.\<close>

fun ht_step :: "('k \<Rightarrow> int) \<Rightarrow> ('k, 'v) op \<Rightarrow> ('k, 'v) hashtable \<Rightarrow> ('k, 'v) hashtable" where
  "ht_step h (Set key val) t = snd (ht_set h key val t)"
| "ht_step h (Delete key) t = snd (ht_delete h key t)"

definition ht_run :: "('k \<Rightarrow> int) \<Rightarrow> ('k, 'v) op list \<Rightarrow> ('k, 'v) hashtable \<Rightarrow> ('k, 'v) hashtable" where
  "ht_run h ops t = fold (ht_step h) ops t"

text \<open>
  Following the spec's words (section 8): "the value from the most recent \<open>set(key, _)\<close> not
  followed by a \<open>delete(key)\<close>", read off the calls from the latest one backwards.
\<close>

fun latest_first :: "('k, 'v) op list \<Rightarrow> 'k \<Rightarrow> 'v option" where
  "latest_first [] key = None"
| "latest_first (Set k v # earlier) key = (if k = key then Some v else latest_first earlier key)"
| "latest_first (Delete k # earlier) key = (if k = key then None else latest_first earlier key)"

definition most_recent_set :: "('k, 'v) op list \<Rightarrow> 'k \<Rightarrow> 'v option" where
  "most_recent_set ops key = latest_first (rev ops) key"

text \<open>
  The invariant the operations keep: there is at least one bucket and no bucket holds a key
  twice.
\<close>

definition ht_inv :: "('k, 'v) hashtable \<Rightarrow> bool" where
  "ht_inv t = (buckets t \<noteq> [] \<and> list_all (\<lambda>b. distinct (map fst b)) (buckets t))"

section \<open>Concrete inputs\<close>


definition abc_table :: "(string, rat) entry list" where
  "abc_table = [Entry ''a'' 1, Entry ''b'' 3, Entry ''c'' 6]"

definition len_hash :: "string \<Rightarrow> int" where
  "len_hash key = int (length key)"

definition roman_ops :: "(string, int) op list" where
  "roman_ops = [Set ''I'' 1, Set ''V'' 5, Delete ''I'', Set ''V'' 6]"

section \<open>Properties of bin_search\<close>

text \<open>
  A probe below the first cumulative value sends the search to \<open>lo = hi = 0\<close>, where
  \<open>hi = mid\<close> changes nothing: the loop never leaves that state.
\<close>

lemma loop_stuck:
  fixes array :: "('a, 'b::linorder) entry list"
  assumes "\<not> cumulative (array ! 0) \<le> prob"
  shows "bin_search_loop array prob 0 0 = None"
proof -
  have "\<And>(a :: ('a, 'b) entry list) p lo hi y. bin_search_loop a p lo hi = Some y \<Longrightarrow>
      \<not> (a = array \<and> p = prob \<and> lo = 0 \<and> hi = 0)"
  proof -
    fix a :: "('a, 'b) entry list" and p lo hi y
    assume "bin_search_loop a p lo hi = Some y"
    then show "\<not> (a = array \<and> p = prob \<and> lo = 0 \<and> hi = 0)"
    proof (rule bin_search_loop.raw_induct[where P = "\<lambda>a p lo hi y.
        \<not> (a = array \<and> p = prob \<and> lo = 0 \<and> hi = 0)", rotated], goal_cases)
      case (1 f a p lo hi y)
      show ?case
      proof
        assume e: "a = array \<and> p = prob \<and> lo = 0 \<and> hi = 0"
        with 1(2) assms have "f a p lo hi = Some y"
          by (simp add: Let_def split: if_splits)
        from 1(1)[OF this] e show False by simp
      qed
    qed
  qed
  then show ?thesis by (cases "bin_search_loop array prob 0 0") blast+
qed

text \<open>
  The loop keeps \<open>hi\<close> at the last index or at an index whose cumulative value is at least the
  probe. It can only fall out of \<open>lo \<le> hi\<close> through \<open>lo = mid + 1\<close> with \<open>mid = hi\<close>, which
  needs \<open>array[hi] < prob\<close> at an index that is not the last: excluded.
\<close>

lemma never_none_loop:
  fixes array :: "('a, 'b::linorder) entry list"
  assumes "bin_search_loop array prob lo hi = Some r"
  shows "0 \<le> lo \<longrightarrow> lo \<le> hi \<longrightarrow> hi \<le> int (length array) - 1 \<longrightarrow>
   (hi = int (length array) - 1 \<or> prob \<le> cumulative (array ! nat hi)) \<longrightarrow> r \<noteq> None"
proof (rule bin_search_loop.raw_induct[where P = "\<lambda>(array :: ('a, 'b) entry list) prob lo hi r.
    0 \<le> lo \<longrightarrow> lo \<le> hi \<longrightarrow> hi \<le> int (length array) - 1 \<longrightarrow>
   (hi = int (length array) - 1 \<or> prob \<le> cumulative (array ! nat hi)) \<longrightarrow> r \<noteq> None",
    OF _ assms], goal_cases)
  case (1 f array prob lo hi r)
  let ?mid = "(lo + hi) div 2"
  show ?case
  proof (intro impI)
    assume lo0: "0 \<le> lo" and lohi: "lo \<le> hi" and hilen: "hi \<le> int (length array) - 1"
      and inv: "hi = int (length array) - 1 \<or> prob \<le> cumulative (array ! nat hi)"
    have mid: "lo \<le> ?mid" "?mid \<le> hi" using lohi by auto
    show "r \<noteq> None"
    proof (cases "cumulative (array ! nat ?mid) \<le> prob \<and>
           (?mid = int (length array) - 1 \<or> prob < cumulative (array ! nat (?mid + 1)))")
      case True
      with 1(2) lohi show ?thesis by (auto simp add: Let_def)
    next
      case ret: False
      show ?thesis
      proof (cases "cumulative (array ! nat ?mid) < prob")
        case True
        with ret 1(2) lohi have call: "f array prob (?mid + 1) hi = Some r"
          by (auto simp add: Let_def split: if_splits)
        have "?mid \<noteq> hi"
        proof
          assume eq: "?mid = hi"
          with ret True have "hi \<noteq> int (length array) - 1" by auto
          with inv have "prob \<le> cumulative (array ! nat hi)" by simp
          with True eq show False by simp
        qed
        with mid have "?mid + 1 \<le> hi" by simp
        with 1(1)[OF call] lo0 mid hilen inv show ?thesis by simp
      next
        case False
        with ret 1(2) lohi have call: "f array prob lo ?mid = Some r"
          by (auto simp add: Let_def split: if_splits)
        have "prob \<le> cumulative (array ! nat ?mid)" using False by simp
        with 1(1)[OF call] lo0 mid hilen show ?thesis by simp
      qed
    qed
  qed
qed








text \<open>
  C2. On every nonempty array, well-formed or not, and for every probe, \<open>bin_search\<close> never
  returns Python's \<open>None\<close>.
\<close>

theorem bin_search_never_none:
  fixes array :: "('a, 'b::linorder) entry list"
  assumes "array \<noteq> []"
  shows "bin_search array prob \<noteq> Some None"
proof
  assume "bin_search array prob = Some None"
  then have "bin_search_loop array prob 0 (int (length array) - 1) = Some None"
    by (simp add: bin_search_def)
  from never_none_loop[OF this] assms show False
    by (cases array) auto
qed

theorem bin_search_never_none_witness:
  "abc_table \<noteq> [] \<and> bin_search abc_table (5 / 2) \<noteq> Some None"
proof -
  have h: "abc_table \<noteq> []" by (simp add: abc_table_def)
  from bin_search_never_none[OF h] h show ?thesis by blast
qed

text \<open>
  C10 fails on the code. On the one-entry table \<open>[(a, 1)]\<close> with the probe 0, below the
  first cumulative value, the loop stays at \<open>lo = hi = 0\<close> and \<open>bin_search\<close> does not return.
\<close>

theorem bin_search_diverges_below_first:
  "bin_search [Entry ''a'' (1::int)] 0 = None"
  unfolding bin_search_def using loop_stuck[of "[Entry ''a'' (1::int)]" 0] by simp

section \<open>Properties of the hash table\<close>

subsection \<open>Buckets\<close>

lemma find_ll_replace:
  "find (\<lambda>item. fst item = k') (ll_replace (\<lambda>item. fst item = k) (k, v) b) =
    (if k' = k then Some (k, v) else find (\<lambda>item. fst item = k') b)"
  by (induction b) auto

lemma keys_ll_replace:
  "set (map fst (ll_replace (\<lambda>item. fst item = k) (k, v) b)) = insert k (set (map fst b))"
  by (induction b) auto

lemma distinct_ll_replace:
  "distinct (map fst b) \<Longrightarrow> distinct (map fst (ll_replace (\<lambda>item. fst item = k) (k, v) b))"
proof (induction b)
  case Nil
  then show ?case by simp
next
  case (Cons x b)
  have "fst x \<noteq> k \<Longrightarrow> fst x \<notin> fst ` set (ll_replace (\<lambda>item. fst item = k) (k, v) b)"
    using Cons.prems keys_ll_replace[of k v b] by auto
  with Cons show ?case by auto
qed

lemma length_ll_replace:
  "length (ll_replace quality new_item b) =
    (if find quality b = None then length b + 1 else length b)"
  by (induction b) auto

lemma ll_remove_fails:
  "ll_remove quality b = Inl e \<longleftrightarrow> (e = KeyError \<and> find quality b = None)"
  by (induction b) (auto split: sum.splits)

lemma ll_remove_length:
  "ll_remove quality b = Inr b' \<Longrightarrow> length b = length b' + 1"
  by (induction b arbitrary: b') (auto split: sum.splits if_splits)

lemma ll_remove_keys:
  "ll_remove quality b = Inr b' \<Longrightarrow> set b' \<subseteq> set b"
  by (induction b arbitrary: b') (auto split: sum.splits if_splits)

lemma find_None_key:
  "find (\<lambda>item. fst item = k) b = None \<longleftrightarrow> k \<notin> fst ` set b"
  by (induction b) auto

lemma ll_remove_distinct:
  "ll_remove (\<lambda>item. fst item = k) b = Inr b' \<Longrightarrow> distinct (map fst b) \<Longrightarrow>
    distinct (map fst b') \<and>
    find (\<lambda>item. fst item = k') b' =
      (if k' = k then None else find (\<lambda>item. fst item = k') b)"
proof (induction b arbitrary: b')
  case Nil
  then show ?case by simp
next
  case (Cons x b)
  show ?case
  proof (cases "fst x = k")
    case True
    with Cons.prems have b': "b' = b" by simp
    from Cons.prems(2) True have "k \<notin> fst ` set b" by auto
    then have "find (\<lambda>item. fst item = k) b = None" by (simp add: find_None_key)
    with b' True Cons.prems(2) show ?thesis by auto
  next
    case False
    with Cons.prems(1) obtain ys where ys: "ll_remove (\<lambda>item. fst item = k) b = Inr ys" "b' = x # ys"
      by (auto split: sum.splits)
    from Cons.IH[OF ys(1)] Cons.prems(2)
    have ih: "distinct (map fst ys)"
      "find (\<lambda>item. fst item = k') ys = (if k' = k then None else find (\<lambda>item. fst item = k') b)"
      by auto
    from ll_remove_keys[OF ys(1)] Cons.prems(2) have "fst x \<notin> fst ` set ys" by auto
    with ih ys False show ?thesis by auto
  qed
qed


subsection \<open>Table\<close>

lemma idx_in_range:
  "buckets t \<noteq> [] \<Longrightarrow> nat (h key mod int (length (buckets t))) < length (buckets t)"
  by (simp add: nat_less_iff)

lemma ht_set_succeeds:
  "buckets t \<noteq> [] \<Longrightarrow> fst (ht_set h key val t) = Inr ()"
  by (simp add: ht_set_def bucket_index_def Let_def)

lemma ht_get_set:
  assumes "buckets t \<noteq> []"
  shows "ht_get h (snd (ht_set h k v t)) k' = (if k' = k then Inr v else ht_get h t k')"
proof -
  let ?n = "length (buckets t)"
  let ?i = "nat (h k mod int ?n)" and ?i' = "nat (h k' mod int ?n)"
  have i: "?i < ?n" "?i' < ?n" using assms by (simp_all add: nat_less_iff)
  show ?thesis
  proof (cases "?i' = ?i")
    case True
    with i assms show ?thesis
      by (simp add: ht_get_def ht_set_def bucket_index_def Let_def ll_find_def find_ll_replace)
  next
    case False
    then have "k' \<noteq> k" by auto
    with False i assms show ?thesis
      by (simp add: ht_get_def ht_set_def bucket_index_def Let_def ll_find_def)
  qed
qed

lemma ht_inv_set: "ht_inv t \<Longrightarrow> ht_inv (snd (ht_set h k v t))"
proof -
  assume inv: "ht_inv t"
  let ?i = "nat (h k mod int (length (buckets t)))"
  from inv have ne: "buckets t \<noteq> []" and d: "\<forall>b\<in>set (buckets t). distinct (map fst b)"
    by (simp_all add: ht_inv_def list_all_iff)
  have i: "?i < length (buckets t)" using ne by (simp add: nat_less_iff)
  with d have "distinct (map fst (buckets t ! ?i))" by simp
  then have "distinct (map fst (ll_replace (\<lambda>item. fst item = k) (k, v) (buckets t ! ?i)))"
    by (rule distinct_ll_replace)
  with d have "\<forall>b\<in>set ((buckets t)[?i := ll_replace (\<lambda>item. fst item = k) (k, v) (buckets t ! ?i)]).
      distinct (map fst b)"
    using set_update_subset_insert[of "buckets t" ?i] by blast
  with ne show ?thesis
    by (simp add: ht_inv_def list_all_iff ht_set_def bucket_index_def Let_def)
qed

lemma ht_delete_cases:
  assumes ne: "buckets t \<noteq> []"
  obtains (absent) "ll_find (\<lambda>item. fst item = k) (buckets t ! nat (h k mod int (length (buckets t)))) = None"
      "ht_delete h k t = (Inl KeyError, t)"
  | (present) b where
      "ll_remove (\<lambda>item. fst item = k) (buckets t ! nat (h k mod int (length (buckets t)))) = Inr b"
      "ht_delete h k t = (Inr (), t\<lparr>buckets := (buckets t)[nat (h k mod int (length (buckets t))) := b],
                       table_size := table_size t - 1\<rparr>)"
proof (cases "ll_remove (\<lambda>item. fst item = k) (buckets t ! nat (h k mod int (length (buckets t))))")
  case (Inl e)
  then have "e = KeyError" and "find (\<lambda>item. fst item = k) (buckets t ! nat (h k mod int (length (buckets t)))) = None"
    by (simp_all add: ll_remove_fails)
  with Inl ne show ?thesis
    by (intro absent) (simp_all add: ll_find_def ht_delete_def bucket_index_def)
next
  case (Inr b)
  with ne show ?thesis
    by (intro present[of b]) (simp_all add: ht_delete_def bucket_index_def)
qed

lemma ht_get_delete:
  assumes inv: "ht_inv t"
  shows "ht_get h (snd (ht_delete h k t)) k' = (if k' = k then Inl KeyError else ht_get h t k')"
proof -
  let ?n = "length (buckets t)"
  let ?i = "nat (h k mod int ?n)" and ?i' = "nat (h k' mod int ?n)"
  from inv have ne: "buckets t \<noteq> []" and d: "\<forall>b\<in>set (buckets t). distinct (map fst b)"
    by (simp_all add: ht_inv_def list_all_iff)
  have i: "?i < ?n" "?i' < ?n" using ne by (simp_all add: nat_less_iff)
  from ne show ?thesis
  proof (cases rule: ht_delete_cases[where h = h and k = k])
    case absent
    with ne show ?thesis by (auto simp add: ht_get_def bucket_index_def)
  next
    case (present b)
    from d i have "distinct (map fst (buckets t ! ?i))" by simp
    from ll_remove_distinct[OF present(1) this, of k']
    have f: "find (\<lambda>item. fst item = k') b =
        (if k' = k then None else find (\<lambda>item. fst item = k') (buckets t ! ?i))" by simp
    show ?thesis
    proof (cases "?i' = ?i")
      case True
      with i ne f present(2) show ?thesis
        by (simp add: ht_get_def bucket_index_def ll_find_def)
    next
      case False
      then have "k' \<noteq> k" by auto
      with False i ne present(2) show ?thesis
        by (simp add: ht_get_def bucket_index_def ll_find_def)
    qed
  qed
qed

lemma ht_inv_delete: "ht_inv t \<Longrightarrow> ht_inv (snd (ht_delete h k t))"
proof -
  assume inv: "ht_inv t"
  let ?i = "nat (h k mod int (length (buckets t)))"
  from inv have ne: "buckets t \<noteq> []" and d: "\<forall>b\<in>set (buckets t). distinct (map fst b)"
    by (simp_all add: ht_inv_def list_all_iff)
  have i: "?i < length (buckets t)" using ne by (simp add: nat_less_iff)
  from ne show ?thesis
  proof (cases rule: ht_delete_cases[where h = h and k = k])
    case absent
    with inv show ?thesis by simp
  next
    case (present b)
    from d i have "distinct (map fst (buckets t ! ?i))" by simp
    from ll_remove_distinct[OF present(1) this] have "distinct (map fst b)" by simp
    with d have "\<forall>c\<in>set ((buckets t)[?i := b]). distinct (map fst c)"
      using set_update_subset_insert[of "buckets t" ?i] by blast
    with ne present(2) show ?thesis by (simp add: ht_inv_def list_all_iff)
  qed
qed

lemma ht_inv_step: "ht_inv t \<Longrightarrow> ht_inv (ht_step h op t)"
  by (cases op) (simp_all add: ht_inv_set ht_inv_delete)

lemma ht_inv_init: "0 < init_size \<Longrightarrow> ht_inv (ht_init init_size)"
  by (simp add: ht_inv_def ht_init_def list_all_iff)

lemma ht_get_init: "0 < init_size \<Longrightarrow> ht_get h (ht_init init_size) k = Inl KeyError"
proof -
  assume "0 < init_size"
  then have "nat (h k mod int (nat init_size)) < nat init_size" by (simp add: nat_less_iff)
  with \<open>0 < init_size\<close> show ?thesis
    by (simp add: ht_get_def bucket_index_def ht_init_def ll_find_def)
qed

lemma ht_run_snoc: "ht_run h (ops @ [op]) t = ht_step h op (ht_run h ops t)"
  by (simp add: ht_run_def)

lemma ht_inv_run: "ht_inv t \<Longrightarrow> ht_inv (ht_run h ops t)"
  by (induction ops rule: rev_induct) (simp_all add: ht_run_snoc ht_inv_step, simp add: ht_run_def)

text \<open>
  On a table built with at least one bucket (\<open>init_size > 0\<close>), after every finite sequence of
  \<open>set\<close> and \<open>delete\<close> calls, failed deletes included, \<open>get(key)\<close> returns the value of the
  most recent \<open>set(key, _)\<close> that no \<open>delete(key)\<close> follows, and raises KeyError when there is
  none.
\<close>

lemma ht_get_after_run:
  assumes "0 < init_size"
  shows "ht_get h (ht_run h ops (ht_init init_size)) key =
    (case most_recent_set ops key of Some v \<Rightarrow> Inr v | None \<Rightarrow> Inl KeyError)"
proof (induction ops arbitrary: key rule: rev_induct)
  case Nil
  from assms show ?case by (simp add: ht_run_def most_recent_set_def ht_get_init)
next
  case (snoc op ops)
  let ?t = "ht_run h ops (ht_init init_size)"
  have inv: "ht_inv ?t" using assms by (simp add: ht_inv_run ht_inv_init)
  then have ne: "buckets ?t \<noteq> []" by (simp add: ht_inv_def)
  show ?case
  proof (cases op)
    case (Set k v)
    with snoc[of key] ne show ?thesis
      by (simp add: ht_run_snoc ht_get_set most_recent_set_def)
  next
    case (Delete k)
    with snoc[of key] inv show ?thesis
      by (simp add: ht_run_snoc ht_get_delete most_recent_set_def)
  qed
qed


lemma sum_lengths_update:
  "i < length bs \<Longrightarrow>
    int (sum_list (map length (bs[i := b]))) =
    int (sum_list (map length bs)) - int (length (bs ! i)) + int (length b)"
proof (induction bs arbitrary: i)
  case Nil
  then show ?case by simp
next
  case (Cons x bs)
  then show ?case by (cases i) simp_all
qed

lemma ht_set_table_size:
  assumes "buckets t \<noteq> []"
  shows "table_size (snd (ht_set h key val t)) =
    table_size t + (if ht_contains h t key then 0 else 1)"
  using assms idx_in_range[OF assms, of h key]
  by (simp add: ht_set_def ht_contains_def ht_get_def bucket_index_def Let_def ll_find_def
      length_ll_replace split: option.splits)

lemma ht_set_keeps_size_inv:
  assumes "table_size t = ht_length t"
  shows "table_size (snd (ht_set h key val t)) = ht_length (snd (ht_set h key val t))"
proof (cases "buckets t = []")
  case True
  with assms show ?thesis by (simp add: ht_set_def bucket_index_def)
next
  case False
  with assms idx_in_range[OF False, of h key] show ?thesis
    by (simp add: ht_set_def bucket_index_def Let_def ht_length_def sum_lengths_update)
qed

lemma ht_delete_keeps_size_inv:
  assumes "table_size t = ht_length t"
  shows "table_size (snd (ht_delete h key t)) = ht_length (snd (ht_delete h key t))"
proof (cases "buckets t = []")
  case True
  with assms show ?thesis by (simp add: ht_delete_def bucket_index_def)
next
  case False
  then show ?thesis
  proof (cases rule: ht_delete_cases[where h = h and k = key])
    case absent
    with assms show ?thesis by simp
  next
    case (present b)
    from ll_remove_length[OF present(1)] assms idx_in_range[OF False, of h key] present(2)
    show ?thesis by (simp add: ht_length_def sum_lengths_update)
  qed
qed

text \<open>
  C6. After every sequence of \<open>set\<close> and \<open>delete\<close> calls on a new table, \<open>table_size\<close>
  equals the sum of the bucket lengths (\<open>length()\<close>), and a \<open>set\<close> that succeeds there adds 1
  to \<open>table_size\<close> when the key was not in the table and 0 when it was.
\<close>

theorem table_size_is_sum_of_bucket_lengths:
  "table_size (ht_run h ops (ht_init init_size)) = ht_length (ht_run h ops (ht_init init_size)) \<and>
   (fst (ht_set h key val (ht_run h ops (ht_init init_size))) = Inr () \<longrightarrow>
      table_size (snd (ht_set h key val (ht_run h ops (ht_init init_size)))) =
      table_size (ht_run h ops (ht_init init_size)) +
        (if ht_contains h (ht_run h ops (ht_init init_size)) key then 0 else 1))"
proof -
  have inv: "table_size (ht_run h ops (ht_init init_size)) = ht_length (ht_run h ops (ht_init init_size))"
  proof (induction ops rule: rev_induct)
    case Nil
    show ?case by (simp add: ht_run_def ht_init_def ht_length_def)
  next
    case (snoc op ops)
    then show ?case
      by (cases op) (simp_all add: ht_run_snoc ht_set_keeps_size_inv ht_delete_keeps_size_inv)
  qed
  have "fst (ht_set h key val t) = Inr () \<longrightarrow>
      table_size (snd (ht_set h key val t)) = table_size t + (if ht_contains h t key then 0 else 1)"
    for t :: "('a, 'b) hashtable"
  proof (cases "buckets t = []")
    case True
    then show ?thesis by (simp add: ht_set_def bucket_index_def)
  next
    case False
    then show ?thesis using ht_set_table_size[of t h key val] by simp
  qed
  with inv show ?thesis by blast
qed

text \<open>
  On every table state with at least one bucket: \<open>delete\<close> of a key that is not in the table
  raises KeyError and leaves the buckets and \<open>table_size\<close> as they were; \<open>delete\<close> of a key
  that is in the table succeeds and takes exactly 1 off \<open>table_size\<close> and off the sum of the
  bucket lengths.
\<close>

lemma ht_delete_absent_or_present:
  assumes "buckets t \<noteq> []"
  shows "(\<not> ht_contains h t key \<longrightarrow> ht_delete h key t = (Inl KeyError, t)) \<and>
         (ht_contains h t key \<longrightarrow>
            fst (ht_delete h key t) = Inr () \<and>
            table_size (snd (ht_delete h key t)) = table_size t - 1 \<and>
            ht_length (snd (ht_delete h key t)) = ht_length t - 1)"
  using assms
proof (cases rule: ht_delete_cases[where h = h and k = key])
  case absent
  with assms show ?thesis by (simp add: ht_contains_def ht_get_def bucket_index_def)
next
  case (present b)
  have "find (\<lambda>item. fst item = key)
      (buckets t ! nat (h key mod int (length (buckets t)))) \<noteq> None"
  proof
    assume "find (\<lambda>item. fst item = key)
      (buckets t ! nat (h key mod int (length (buckets t)))) = None"
    then have "ll_remove (\<lambda>item. fst item = key)
      (buckets t ! nat (h key mod int (length (buckets t)))) = Inl KeyError"
      by (simp add: ll_remove_fails)
    with present(1) show False by simp
  qed
  with assms have c: "ht_contains h t key"
    by (auto simp add: ht_contains_def ht_get_def bucket_index_def ll_find_def)
  from ll_remove_length[OF present(1)] idx_in_range[OF assms, of h key] present(2) c
  show ?thesis by (simp add: ht_length_def sum_lengths_update)
qed


subsection \<open>Concrete runs of the table\<close>

lemma roman_run:
  "ht_run len_hash roman_ops (ht_init 8) =
    \<lparr>buckets = [[], [(''V'', 6)], [], [], [], [], [], []], table_size = 1\<rparr>"
  by code_simp

lemma ht_get_after_roman_run:
  "(0::int) < 8 \<and>
   ht_get len_hash (ht_run len_hash roman_ops (ht_init 8)) ''V'' = Inr 6 \<and>
   ht_get len_hash (ht_run len_hash roman_ops (ht_init 8)) ''I'' = Inl KeyError"
proof -
  have h: "(0::int) < 8" by simp
  have m: "most_recent_set roman_ops ''V'' = Some 6" "most_recent_set roman_ops ''I'' = None"
    by (simp_all add: most_recent_set_def roman_ops_def)
  from ht_get_after_run[OF h, of len_hash roman_ops "''V''"]
    ht_get_after_run[OF h, of len_hash roman_ops "''I''"] m
  show ?thesis by simp
qed

text \<open>
  C5 fails on the code. \<open>__init__\<close> accepts \<open>init_size = 0\<close> and builds a table with no
  bucket; there \<open>set\<close> and \<open>get\<close> raise ZeroDivisionError in \<open>_bucket_index\<close>, so after
  \<open>set(a, 1)\<close> the call \<open>get(a)\<close> does not return 1, and on the new table \<open>get(a)\<close> does not
  raise KeyError.
\<close>

theorem ht_get_without_buckets_raises:
  "most_recent_set [Set ''a'' (1::int)] ''a'' = Some 1 \<and>
   ht_get len_hash (ht_run len_hash [Set ''a'' (1::int)] (ht_init 0)) ''a'' = Inl ZeroDivisionError \<and>
   most_recent_set ([] :: (string, int) op list) ''a'' = None \<and>
   ht_get len_hash (ht_run len_hash [] (ht_init 0 :: (string, int) hashtable)) ''a'' =
     Inl ZeroDivisionError"
  by (simp add: ht_get_def ht_run_def ht_set_def bucket_index_def ht_init_def most_recent_set_def)

theorem table_size_is_sum_of_bucket_lengths_witness:
  "fst (ht_set len_hash ''V'' 10 (ht_run len_hash roman_ops (ht_init 8))) = Inr () \<and>
   table_size (ht_run len_hash roman_ops (ht_init 8)) =
     ht_length (ht_run len_hash roman_ops (ht_init 8)) \<and>
   table_size (snd (ht_set len_hash ''V'' 10 (ht_run len_hash roman_ops (ht_init 8)))) =
     table_size (ht_run len_hash roman_ops (ht_init 8)) + 0 \<and>
   fst (ht_set len_hash ''XX'' 20 (ht_run len_hash roman_ops (ht_init 8))) = Inr () \<and>
   table_size (snd (ht_set len_hash ''XX'' 20 (ht_run len_hash roman_ops (ht_init 8)))) =
     table_size (ht_run len_hash roman_ops (ht_init 8)) + 1"
proof -
  have s: "fst (ht_set len_hash ''V'' 10 (ht_run len_hash roman_ops (ht_init 8))) = Inr ()"
    "fst (ht_set len_hash ''XX'' 20 (ht_run len_hash roman_ops (ht_init 8))) = Inr ()"
    by (simp_all add: roman_run ht_set_succeeds)
  have c: "ht_contains len_hash (ht_run len_hash roman_ops (ht_init 8)) ''V''"
    "\<not> ht_contains len_hash (ht_run len_hash roman_ops (ht_init 8)) ''XX''"
    by (simp_all add: roman_run ht_contains_def ht_get_def bucket_index_def ll_find_def len_hash_def)
  from table_size_is_sum_of_bucket_lengths[of len_hash roman_ops 8 "''V''" 10]
    table_size_is_sum_of_bucket_lengths[of len_hash roman_ops 8 "''XX''" 20] s c
  show ?thesis by simp
qed

lemma ht_delete_on_roman_run:
  "buckets (ht_run len_hash roman_ops (ht_init 8)) \<noteq> [] \<and>
   \<not> ht_contains len_hash (ht_run len_hash roman_ops (ht_init 8)) ''I'' \<and>
   ht_delete len_hash ''I'' (ht_run len_hash roman_ops (ht_init 8)) =
     (Inl KeyError, ht_run len_hash roman_ops (ht_init 8)) \<and>
   ht_contains len_hash (ht_run len_hash roman_ops (ht_init 8)) ''V'' \<and>
   fst (ht_delete len_hash ''V'' (ht_run len_hash roman_ops (ht_init 8))) = Inr () \<and>
   table_size (snd (ht_delete len_hash ''V'' (ht_run len_hash roman_ops (ht_init 8)))) =
     table_size (ht_run len_hash roman_ops (ht_init 8)) - 1"
proof -
  have h: "buckets (ht_run len_hash roman_ops (ht_init 8)) \<noteq> []"
    by (simp add: roman_run)
  have c: "\<not> ht_contains len_hash (ht_run len_hash roman_ops (ht_init 8)) ''I''"
    "ht_contains len_hash (ht_run len_hash roman_ops (ht_init 8)) ''V''"
    by (simp_all add: roman_run ht_contains_def ht_get_def bucket_index_def ll_find_def len_hash_def)
  from ht_delete_absent_or_present[OF h, of len_hash "''I''"]
    ht_delete_absent_or_present[OF h, of len_hash "''V''"] h c
  show ?thesis by simp
qed

text \<open>
  C7 fails on the code. On the table built with \<open>init_size = 0\<close> the key \<open>a\<close> is not in the
  table, yet \<open>delete(a)\<close> raises ZeroDivisionError in \<open>_bucket_index\<close>, not KeyError (the table
  is left unchanged).
\<close>

theorem ht_delete_without_buckets_raises:
  "\<not> ht_contains len_hash (ht_init 0 :: (string, int) hashtable) ''a'' \<and>
   ht_delete len_hash ''a'' (ht_init 0 :: (string, int) hashtable) =
     (Inl ZeroDivisionError, ht_init 0)"
  by (simp add: ht_contains_def ht_get_def ht_delete_def bucket_index_def ht_init_def)

section \<open>Properties of the distributions\<close>

lemma map_of_bump:
  "map_of (bump w c m) w' =
    (if w' = w then Some ((case map_of m w of Some x \<Rightarrow> x | None \<Rightarrow> 0) + c) else map_of m w')"
  by (induction m) auto

lemma map_of_merge:
  "(case map_of (merge_data_containing_ints m ds) w of Some x \<Rightarrow> x | None \<Rightarrow> 0) =
   (case map_of m w of Some x \<Rightarrow> x | None \<Rightarrow> 0) + delta_sum ds w"
  unfolding merge_data_containing_ints_def delta_sum_def
  by (induction ds arbitrary: m) (auto simp add: map_of_bump split: option.splits)

lemma rev_keep_last:
  "rev (drop (length l - n) l) = take n (rev l)"
proof (cases "n \<le> length l")
  case True
  then show ?thesis by (simp add: rev_drop)
next
  case False
  then show ?thesis by simp
qed

lemma rev_logs_log_call: "rev (logs (log_call a g)) = a # take 3 (rev (logs g))"
proof -
  have "rev (logs (log_call a g)) = take 4 (rev (logs g @ [a]))"
    unfolding log_call_def Let_def using rev_keep_last[of "logs g @ [a]" 4] by simp
  then show ?thesis by (simp add: numeral_eq_Suc)
qed

lemma third_from_end:
  assumes "logs g \<noteq> []" "last (logs g) = x"
  shows "length (logs (log_call b (log_call a g))) > 2 \<and>
         logs (log_call b (log_call a g)) ! (length (logs (log_call b (log_call a g))) - 3) = x"
proof -
  from assms obtain l where l: "logs g = l @ [x]" by (metis append_butlast_last_id)
  have r: "rev (logs (log_call b (log_call a g))) = b # a # x # take 1 (rev l)"
    by (simp add: rev_logs_log_call l numeral_eq_Suc)
  then have len: "length (logs (log_call b (log_call a g))) > 2"
    by (metis length_rev length_Cons less_Suc_eq_0_disj numeral_2_eq_2 Suc_less_eq)
  with r rev_nth[of 2 "logs (log_call b (log_call a g))"] show ?thesis
    by (simp add: numeral_eq_Suc)
qed


lemma keys_bump: "fst ` set (bump w c m) = insert w (fst ` set m)"
proof (induction m)
  case Nil
  show ?case by simp
next
  case (Cons x m)
  obtain k v where x: "x = (k, v)" by (cases x)
  show ?case
  proof (cases "k = w")
    case True
    with x show ?thesis by simp
  next
    case False
    with x Cons show ?thesis by (simp add: insert_commute)
  qed
qed

lemma distinct_bump: "distinct (map fst m) \<Longrightarrow> distinct (map fst (bump w c m))"
proof (induction m)
  case Nil
  then show ?case by simp
next
  case (Cons x m)
  have "fst x \<noteq> w \<Longrightarrow> fst x \<notin> fst ` set (bump w c m)"
    using Cons.prems keys_bump[of w c m] by auto
  with Cons show ?case by (cases x) auto
qed

lemma distinct_fold_bump:
  "distinct (map fst m) \<Longrightarrow> distinct (map fst (fold (\<lambda>(w, c) m. bump w c m) ds m))"
  by (induction ds arbitrary: m) (auto simp add: distinct_bump)

lemma delta_sum_distinct:
  "distinct (map fst m) \<Longrightarrow> delta_sum m w = (case map_of m w of Some x \<Rightarrow> x | None \<Rightarrow> 0)"
proof (induction m)
  case Nil
  then show ?case by (simp add: delta_sum_def)
next
  case (Cons x m)
  obtain k c where x: "x = (k, c)" by (cases x)
  show ?case
  proof (cases "k = w")
    case True
    with Cons.prems x have "w \<notin> fst ` set m" by auto
    then have "filter (\<lambda>d. fst d = w) m = []" by (auto simp add: filter_empty_conv)
    moreover from \<open>w \<notin> fst ` set m\<close> have "map_of m w = None" by (simp add: map_of_eq_None_iff)
    ultimately show ?thesis using True x by (simp add: delta_sum_def)
  next
    case False
    with Cons x show ?thesis by (simp add: delta_sum_def)
  qed
qed

lemma listogram_add_counts_snoc:
  "listogram_add_counts (ds @ [(w, c)]) g = listogram_add_count w c (listogram_add_counts ds g)"
  by (simp add: listogram_add_counts_def)

lemma dictogram_add_counts_snoc:
  "dictogram_add_counts (ds @ [(w, c)]) g = dictogram_add_count w c (dictogram_add_counts ds g)"
  by (simp add: dictogram_add_counts_def)

lemma last_log_call: "logs (log_call a g) \<noteq> [] \<and> last (logs (log_call a g)) = a"
proof -
  have "rev (logs (log_call a g)) = a # take 3 (rev (logs g))" by (rule rev_logs_log_call)
  then show ?thesis by (metis last_rev list.sel(1) list.simps(3) rev_is_Nil_conv hd_rev rev_rev_ident)
qed

lemma log_call_fields:
  "word_to_freq (log_call a g) = word_to_freq g"
  "table (log_call a g) = table g"
  "temp_word_to_freq (log_call a g) = temp_word_to_freq g"
  by (simp_all add: log_call_def)

lemma listogram_add_counts_state:
  "word_to_freq (listogram_add_counts ds g) = word_to_freq g \<and>
   table (listogram_add_counts ds g) = table g \<and>
   temp_word_to_freq (listogram_add_counts ds g) = temp_word_to_freq g @ ds \<and>
   (ds = [] \<longrightarrow> logs (listogram_add_counts ds g) = logs g) \<and>
   (ds \<noteq> [] \<longrightarrow> logs (listogram_add_counts ds g) \<noteq> [] \<and>
      last (logs (listogram_add_counts ds g)) = ''add_count'')"
proof (induction ds rule: rev_induct)
  case Nil
  show ?case by (simp add: listogram_add_counts_def)
next
  case (snoc d ds)
  obtain w c where d: "d = (w, c)" by (cases d)
  from snoc last_log_call[of "''add_count''" "listogram_add_counts ds g"] show ?case
    by (simp add: d listogram_add_counts_snoc listogram_add_count_def Let_def log_call_fields)
qed

lemma dictogram_add_counts_state:
  "word_to_freq (dictogram_add_counts ds g) = word_to_freq g \<and>
   table (dictogram_add_counts ds g) = table g \<and>
   temp_word_to_freq (dictogram_add_counts ds g) =
     merge_data_containing_ints (temp_word_to_freq g) ds \<and>
   (ds = [] \<longrightarrow> logs (dictogram_add_counts ds g) = logs g) \<and>
   (ds \<noteq> [] \<longrightarrow> logs (dictogram_add_counts ds g) \<noteq> [] \<and>
      last (logs (dictogram_add_counts ds g)) = ''add_count'')"
proof (induction ds rule: rev_induct)
  case Nil
  show ?case by (simp add: dictogram_add_counts_def merge_data_containing_ints_def)
next
  case (snoc d ds)
  obtain w c where d: "d = (w, c)" by (cases d)
  from snoc last_log_call[of "''add_count''" "dictogram_add_counts ds g"] show ?case
    by (simp add: d dictogram_add_counts_snoc dictogram_add_count_def Let_def log_call_fields
        merge_data_containing_ints_def)
qed

lemma rebuild_after_add_count:
  assumes "logs g \<noteq> []" "last (logs g) = ''add_count''"
  shows "word_to_freq (rebuild_with_latent_wordcounts (log_call name g)) =
           merge_data_containing_ints (word_to_freq g) (temp_word_to_freq g)"
    and "table (rebuild_with_latent_wordcounts (log_call name g)) =
           cumulative_table (merge_data_containing_ints (word_to_freq g) (temp_word_to_freq g))"
    and "temp_word_to_freq (rebuild_with_latent_wordcounts (log_call name g)) = temp_word_to_freq g"
  using third_from_end[OF assms, of "''rebuild_with_latent_wordcounts''" name]
  by (simp_all add: rebuild_with_latent_wordcounts_def Let_def freqdist_init_def log_call_fields)

lemma rebuild_new_object:
  assumes "logs g = []"
  shows "word_to_freq (rebuild_with_latent_wordcounts (log_call name g)) = word_to_freq g"
    and "table (rebuild_with_latent_wordcounts (log_call name g)) = table g"
  using assms
  by (simp_all add: rebuild_with_latent_wordcounts_def Let_def log_call_def)

lemma gram_init_fields:
  "word_to_freq (gram_init (Some ws)) = counter ws"
  "table (gram_init (Some ws)) = cumulative_table (counter ws)"
  "temp_word_to_freq (gram_init (Some ws)) = []"
  "logs (gram_init (Some ws)) = []"
  by (simp_all add: gram_init_def freqdist_init_def)

lemma merge_nil: "merge_data_containing_ints m [] = m"
  by (simp add: merge_data_containing_ints_def)

lemma listogram_read_state:
  "word_to_freq (rebuild_with_latent_wordcounts
      (log_call name (listogram_add_counts ds (gram_init (Some ws))))) =
     merge_data_containing_ints (counter ws) ds \<and>
   table (rebuild_with_latent_wordcounts
      (log_call name (listogram_add_counts ds (gram_init (Some ws))))) =
     cumulative_table (merge_data_containing_ints (counter ws) ds)"
proof (cases "ds = []")
  case True
  then show ?thesis
    using listogram_add_counts_state[of ds "gram_init (Some ws)"]
    by (simp add: rebuild_new_object gram_init_fields merge_nil)
next
  case False
  with listogram_add_counts_state[of ds "gram_init (Some ws)"]
  have l: "logs (listogram_add_counts ds (gram_init (Some ws))) \<noteq> []"
    "last (logs (listogram_add_counts ds (gram_init (Some ws)))) = ''add_count''" by simp_all
  from rebuild_after_add_count(1,2)[OF l, of name]
    listogram_add_counts_state[of ds "gram_init (Some ws)"]
  show ?thesis by (simp add: gram_init_fields)
qed

lemma dictogram_read_state:
  "word_to_freq (rebuild_with_latent_wordcounts
      (log_call name (dictogram_add_counts ds (gram_init (Some ws))))) =
     merge_data_containing_ints (counter ws) (merge_data_containing_ints [] ds) \<and>
   table (rebuild_with_latent_wordcounts
      (log_call name (dictogram_add_counts ds (gram_init (Some ws))))) =
     cumulative_table (merge_data_containing_ints (counter ws) (merge_data_containing_ints [] ds))"
proof (cases "ds = []")
  case True
  then show ?thesis
    using dictogram_add_counts_state[of ds "gram_init (Some ws)"]
    by (simp add: rebuild_new_object gram_init_fields merge_nil)
next
  case False
  with dictogram_add_counts_state[of ds "gram_init (Some ws)"]
  have l: "logs (dictogram_add_counts ds (gram_init (Some ws))) \<noteq> []"
    "last (logs (dictogram_add_counts ds (gram_init (Some ws)))) = ''add_count''" by simp_all
  from rebuild_after_add_count(1,2)[OF l, of name]
    dictogram_add_counts_state[of ds "gram_init (Some ws)"]
  show ?thesis by (simp add: gram_init_fields)
qed

lemma dictogram_buffer_sum:
  "delta_sum (merge_data_containing_ints [] ds) w = delta_sum ds w"
proof -
  have "distinct (map fst (merge_data_containing_ints [] ds))"
    unfolding merge_data_containing_ints_def by (rule distinct_fold_bump) simp
  then have "delta_sum (merge_data_containing_ints [] ds) w =
      (case map_of (merge_data_containing_ints [] ds) w of Some x \<Rightarrow> x | None \<Rightarrow> 0)"
    by (rule delta_sum_distinct)
  also have "\<dots> = delta_sum ds w" using map_of_merge[of "[]" ds w] by simp
  finally show ?thesis .
qed

lemma listogram_read_after_burst:
  assumes "ds \<noteq> []"
  shows "word_to_freq (rebuild_with_latent_wordcounts (log_call name (listogram_add_counts ds g))) =
           merge_data_containing_ints (word_to_freq g) (temp_word_to_freq g @ ds)"
    and "table (rebuild_with_latent_wordcounts (log_call name (listogram_add_counts ds g))) =
           cumulative_table (merge_data_containing_ints (word_to_freq g) (temp_word_to_freq g @ ds))"
proof -
  from assms listogram_add_counts_state[of ds g]
  have l: "logs (listogram_add_counts ds g) \<noteq> []"
    "last (logs (listogram_add_counts ds g)) = ''add_count''" by simp_all
  from rebuild_after_add_count(1)[OF l, of name] listogram_add_counts_state[of ds g]
  show "word_to_freq (rebuild_with_latent_wordcounts (log_call name (listogram_add_counts ds g))) =
           merge_data_containing_ints (word_to_freq g) (temp_word_to_freq g @ ds)" by simp
  from rebuild_after_add_count(2)[OF l, of name] listogram_add_counts_state[of ds g]
  show "table (rebuild_with_latent_wordcounts (log_call name (listogram_add_counts ds g))) =
           cumulative_table (merge_data_containing_ints (word_to_freq g) (temp_word_to_freq g @ ds))"
    by simp
qed

lemma dictogram_read_after_burst:
  assumes "ds \<noteq> []"
  shows "word_to_freq (rebuild_with_latent_wordcounts (log_call name (dictogram_add_counts ds g))) =
           merge_data_containing_ints (word_to_freq g)
             (merge_data_containing_ints (temp_word_to_freq g) ds)"
    and "table (rebuild_with_latent_wordcounts (log_call name (dictogram_add_counts ds g))) =
           cumulative_table (merge_data_containing_ints (word_to_freq g)
             (merge_data_containing_ints (temp_word_to_freq g) ds))"
proof -
  from assms dictogram_add_counts_state[of ds g]
  have l: "logs (dictogram_add_counts ds g) \<noteq> []"
    "last (logs (dictogram_add_counts ds g)) = ''add_count''" by simp_all
  from rebuild_after_add_count(1)[OF l, of name] dictogram_add_counts_state[of ds g]
  show "word_to_freq (rebuild_with_latent_wordcounts (log_call name (dictogram_add_counts ds g))) =
           merge_data_containing_ints (word_to_freq g)
             (merge_data_containing_ints (temp_word_to_freq g) ds)" by simp
  from rebuild_after_add_count(2)[OF l, of name] dictogram_add_counts_state[of ds g]
  show "table (rebuild_with_latent_wordcounts (log_call name (dictogram_add_counts ds g))) =
           cumulative_table (merge_data_containing_ints (word_to_freq g)
             (merge_data_containing_ints (temp_word_to_freq g) ds))" by simp
qed

text \<open>
  On every Listogram or Dictogram state, after a burst of one or more \<open>add_count\<close> calls
  the next read (\<open>frequency\<close>, and \<open>items\<close> of a Dictogram) leaves the mapping equal to the
  merge of the old mapping with everything the buffer holds, summed per item, and the
  cumulative table equal to the table of that mapping, and \<open>frequency\<close> answers from that
  mapping. On a new distribution built from a word list, \<open>frequency(word)\<close> is then the word's
  count plus the sum of its deltas. In particular a distribution built from two \<open>x\<close> followed by
  two \<open>add_count(x, _)\<close> calls that total 3 has, after a read, the cumulative table of one built
  from five \<open>x\<close>.
\<close>

lemma read_merges_whole_buffer:
  assumes "ds \<noteq> []"
  shows
  "word_to_freq (snd (gram_frequency word (listogram_add_counts ds g))) =
     merge_data_containing_ints (word_to_freq g) (temp_word_to_freq g @ ds) \<and>
   word_to_freq (snd (gram_frequency word (dictogram_add_counts ds g))) =
     merge_data_containing_ints (word_to_freq g)
       (merge_data_containing_ints (temp_word_to_freq g) ds) \<and>
   fst (dictogram_items (dictogram_add_counts ds g)) =
     merge_data_containing_ints (word_to_freq g)
       (merge_data_containing_ints (temp_word_to_freq g) ds) \<and>
   table (snd (gram_frequency word (listogram_add_counts ds g))) =
     cumulative_table (word_to_freq (snd (gram_frequency word (listogram_add_counts ds g)))) \<and>
   table (snd (gram_frequency word (dictogram_add_counts ds g))) =
     cumulative_table (word_to_freq (snd (gram_frequency word (dictogram_add_counts ds g)))) \<and>
   table (snd (dictogram_items (dictogram_add_counts ds g))) =
     cumulative_table (fst (dictogram_items (dictogram_add_counts ds g))) \<and>
   fst (gram_frequency word (listogram_add_counts ds g)) =
     freqdist_get g word 0 + delta_sum (temp_word_to_freq g @ ds) word \<and>
   fst (gram_frequency word (listogram_add_counts ds (gram_init (Some ws)))) =
     freqdist_get (gram_init (Some ws)) word 0 + delta_sum ds word \<and>
   fst (gram_frequency word (dictogram_add_counts ds (gram_init (Some ws)))) =
     freqdist_get (gram_init (Some ws)) word 0 + delta_sum ds word \<and>
   (c1 + c2 = 3 \<longrightarrow>
     table (snd (gram_frequency word
       (listogram_add_count x c2 (listogram_add_count x c1 (gram_init (Some [x, x])))))) =
       table (gram_init (Some [x, x, x, x, x])) \<and>
     table (snd (gram_frequency word
       (dictogram_add_count x c2 (dictogram_add_count x c1 (gram_init (Some [x, x])))))) =
       table (gram_init (Some [x, x, x, x, x])) \<and>
     table (snd (dictogram_items
       (dictogram_add_count x c2 (dictogram_add_count x c1 (gram_init (Some [x, x])))))) =
       table (gram_init (Some [x, x, x, x, x])))"
proof -
  note lf = listogram_read_after_burst[OF assms, of "''frequency''" g]
  note df = dictogram_read_after_burst[OF assms, of "''frequency''" g]
  note di = dictogram_read_after_burst[OF assms, of "''items''" g]
  have l1: "word_to_freq (snd (gram_frequency word (listogram_add_counts ds g))) =
     merge_data_containing_ints (word_to_freq g) (temp_word_to_freq g @ ds)"
    using lf by (simp add: gram_frequency_def Let_def)
  have d1: "word_to_freq (snd (gram_frequency word (dictogram_add_counts ds g))) =
     merge_data_containing_ints (word_to_freq g)
       (merge_data_containing_ints (temp_word_to_freq g) ds)"
    using df by (simp add: gram_frequency_def Let_def)
  have i1: "fst (dictogram_items (dictogram_add_counts ds g)) =
     merge_data_containing_ints (word_to_freq g)
       (merge_data_containing_ints (temp_word_to_freq g) ds)"
    using di by (simp add: dictogram_items_def Let_def)
  have l2: "table (snd (gram_frequency word (listogram_add_counts ds g))) =
     cumulative_table (word_to_freq (snd (gram_frequency word (listogram_add_counts ds g))))"
    using lf by (simp add: gram_frequency_def Let_def)
  have d2: "table (snd (gram_frequency word (dictogram_add_counts ds g))) =
     cumulative_table (word_to_freq (snd (gram_frequency word (dictogram_add_counts ds g))))"
    using df by (simp add: gram_frequency_def Let_def)
  have i2: "table (snd (dictogram_items (dictogram_add_counts ds g))) =
     cumulative_table (fst (dictogram_items (dictogram_add_counts ds g)))"
    using di by (simp add: dictogram_items_def Let_def)
  have l3: "fst (gram_frequency word (listogram_add_counts ds g)) =
     freqdist_get g word 0 + delta_sum (temp_word_to_freq g @ ds) word"
    using lf map_of_merge[of "word_to_freq g" "temp_word_to_freq g @ ds" word]
    by (simp add: gram_frequency_def Let_def freqdist_get_def)
  have l4: "fst (gram_frequency word (listogram_add_counts ds (gram_init (Some ws)))) =
     freqdist_get (gram_init (Some ws)) word 0 + delta_sum ds word"
    using listogram_read_state[of "''frequency''" ds ws] map_of_merge[of "counter ws" ds word]
    by (simp add: gram_frequency_def Let_def freqdist_get_def gram_init_fields)
  have d4: "fst (gram_frequency word (dictogram_add_counts ds (gram_init (Some ws)))) =
     freqdist_get (gram_init (Some ws)) word 0 + delta_sum ds word"
    using dictogram_read_state[of "''frequency''" ds ws]
      map_of_merge[of "counter ws" "merge_data_containing_ints [] ds" word]
    by (simp add: gram_frequency_def Let_def freqdist_get_def gram_init_fields dictogram_buffer_sum)
  have f: "c1 + c2 = 3 \<longrightarrow>
     table (snd (gram_frequency word
       (listogram_add_count x c2 (listogram_add_count x c1 (gram_init (Some [x, x])))))) =
       table (gram_init (Some [x, x, x, x, x])) \<and>
     table (snd (gram_frequency word
       (dictogram_add_count x c2 (dictogram_add_count x c1 (gram_init (Some [x, x])))))) =
       table (gram_init (Some [x, x, x, x, x])) \<and>
     table (snd (dictogram_items
       (dictogram_add_count x c2 (dictogram_add_count x c1 (gram_init (Some [x, x])))))) =
       table (gram_init (Some [x, x, x, x, x]))"
    by (simp add: gram_frequency_def dictogram_items_def listogram_add_count_def
        dictogram_add_count_def gram_init_def rebuild_with_latent_wordcounts_def log_call_def
        freqdist_init_def merge_data_containing_ints_def counter_def cumulative_table_def Let_def)
  from l1 d1 i1 l2 d2 i2 l3 l4 d4 f show ?thesis by blast
qed

lemma read_after_first_burst:
  "[(''x'', 1), (''x'', 2)] \<noteq> ([] :: string counts) \<and> (1::int) + 2 = 3 \<and>
   table (snd (gram_frequency ''x''
     (listogram_add_count ''x'' 2 (listogram_add_count ''x'' 1 (gram_init (Some [''x'', ''x'']))))))
     = [Entry ''x'' 5] \<and>
   table (snd (dictogram_items
     (dictogram_add_count ''x'' 2 (dictogram_add_count ''x'' 1 (gram_init (Some [''x'', ''x'']))))))
     = [Entry ''x'' 5] \<and>
   fst (gram_frequency ''x''
     (listogram_add_counts [(''x'', 1), (''x'', 2)] (gram_init (Some [''x'', ''x''])))) = 5"
proof -
  have n: "[(''x'', 1), (''x'', 2)] \<noteq> ([] :: string counts)" by simp
  have h: "(1::int) + 2 = 3" by simp
  have t: "table (gram_init (Some [''x'', ''x'', ''x'', ''x'', ''x''])) = [Entry ''x'' 5]"
    by (simp add: gram_init_def freqdist_init_def counter_def cumulative_table_def)
  have b: "freqdist_get (gram_init (Some [''x'', ''x''])) ''x'' 0 = 2"
    by (simp add: gram_init_def freqdist_init_def counter_def freqdist_get_def)
  have d: "delta_sum [(''x'', 1), (''x'', 2)] ''x'' = 3" by (simp add: delta_sum_def)
  from read_merges_whole_buffer[OF n, where word = "''x''" and g = "gram_init (Some [''x'', ''x''])"
      and ws = "[''x'', ''x'']" and ?c1.0 = 1 and ?c2.0 = 2 and x = "''x''"] h t b d
  show ?thesis by simp
qed

text \<open>
  C3 fails on the code. A Listogram built from two \<open>x\<close> is read once after \<open>add_count(x, 1)\<close>;
  the buffer keeps that delta, so the read after the next \<open>add_count(x, 2)\<close> merges both deltas
  into a mapping that already holds the first and leaves the cumulative table \<open>[(x, 6)]\<close>,
  where the two calls total 3 and the table of five \<open>x\<close> is \<open>[(x, 5)]\<close>. And the read
  \<open>index_of\<close> gives no answer after \<open>add_count\<close>: it raises NameError.
\<close>

theorem read_after_earlier_read_merges_stale_deltas:
  "table (snd (gram_frequency ''x'' (listogram_add_count ''x'' 2
     (snd (gram_frequency ''x'' (listogram_add_count ''x'' 1 (gram_init (Some [''x'', ''x'']))))))))
     = [Entry ''x'' 6] \<and>
   table (snd (dictogram_items (dictogram_add_count ''x'' 2
     (snd (dictogram_items (dictogram_add_count ''x'' 1 (gram_init (Some [''x'', ''x'']))))))))
     = [Entry ''x'' 6] \<and>
   table (gram_init (Some [''x'', ''x'', ''x'', ''x'', ''x''])) = [Entry ''x'' 5] \<and>
   fst (listogram_index_of ''x'' (listogram_add_count ''x'' 3 (gram_init (Some [''x'', ''x''])))) =
     Inl NameError"
  by (simp add: gram_frequency_def dictogram_items_def listogram_add_count_def
      dictogram_add_count_def gram_init_def rebuild_with_latent_wordcounts_def log_call_def
      freqdist_init_def merge_data_containing_ints_def counter_def cumulative_table_def
      listogram_index_of_def Let_def)


text \<open>
  C8 fails on the code. \<open>rebuild_with_latent_wordcounts\<close> merges the buffer and never
  empties it: after \<open>add_count(x, 3)\<close> and a read the buffer still holds \<open>(x, 3)\<close>, and after
  one more \<open>add_count(x, 1)\<close> the next read merges both deltas into a mapping that already
  holds the first, so \<open>frequency(x)\<close> is 7 where the calls add up to 4.
\<close>

theorem buffer_merged_twice:
  "temp_word_to_freq (snd (gram_frequency ''x'' (listogram_add_count ''x'' 3 (gram_init None)))) =
     [(''x'', 3)] \<and>
   fst (gram_frequency ''x'' (listogram_add_count ''x'' 3 (gram_init None))) = 3 \<and>
   fst (gram_frequency ''x'' (listogram_add_count ''x'' 1
     (snd (gram_frequency ''x'' (listogram_add_count ''x'' 3 (gram_init None)))))) = 7 \<and>
   fst (gram_frequency ''x'' (dictogram_add_count ''x'' 1
     (snd (gram_frequency ''x'' (dictogram_add_count ''x'' 3 (gram_init None)))))) = 7"
  by (simp add: gram_frequency_def listogram_add_count_def dictogram_add_count_def gram_init_def
      rebuild_with_latent_wordcounts_def log_call_def freqdist_init_def freqdist_get_def
      merge_data_containing_ints_def Let_def cumulative_table_def)

text \<open>
  C9 fails on the code. \<open>Listogram.index_of\<close> raises NameError for every target on every
  Listogram, present or absent, because the name \<open>bin_search\<close> it calls is not bound.
\<close>

theorem index_of_raises_name_error:
  "fst (listogram_index_of target g) = Inl NameError \<and>
   fst (listogram_index_of ''a'' (gram_init (Some [''a'']))) = Inl NameError"
  by (simp add: listogram_index_of_def Let_def)

end
